theory Spec2Isabelle
  imports Main
begin

section \<open>Taint-model generator specifications\<close>

text \<open>
  The module \<^verbatim>\<open>tools/generate_taint_models/generator_specifications.py\<close>
  declares three classes with \<^verbatim>\<open>typing.NamedTuple\<close> as their base and
  nothing else: no method, no validation. What the classes do is therefore what a
  named-tuple class does with the declared fields: bind the arguments of a call to the
  fields, store them in a tuple object, read them back by name or by index, compare
  as tuples, and refuse assignment to a field or an item. This theory embeds the three declarations and that
  behaviour over an explicit heap, since two of the field types are mutable sets.
\<close>

subsection \<open>Values, objects, heap\<close>

type_synonym addr = nat

text \<open>
  The exceptions the modelled operations raise. \<open>SystemError\<close> stands for an address
  that names no object; no Python program reaches it, since a reference always has a
  referent.
\<close>

datatype pyerr = TypeError | AttributeError | IndexError | ValueError | SystemError

text \<open>
  The values the declared field types admit: \<^verbatim>\<open>None\<close>, a \<^verbatim>\<open>str\<close>, or a reference
  to a \<^verbatim>\<open>Set[str]\<close> object on the heap.
\<close>

datatype pyval = PNone | PStr string | PSet addr

text \<open>
  A named-tuple class statement: the class name and the fields in declaration order,
  each with its default (\<open>None\<close> for a field declared without one).
\<close>

record nt_class =
  cls_name :: string
  cls_fields :: "(string \<times> pyval option) list"

text \<open>
  A tuple object: the named-tuple class it is an instance of (\<open>None\<close> for a plain
  \<^verbatim>\<open>tuple\<close>) and its items.
\<close>

record pytuple =
  tp_class :: "nt_class option"
  tp_items :: "pyval list"

text \<open>The heap: the set objects and the tuple objects, an address being an index.\<close>

record heap =
  sets :: "string set list"
  tuples :: "pytuple list"

definition empty_heap :: heap where
  "empty_heap = \<lparr>sets = [], tuples = []\<rparr>"

subsection \<open>The three declarations\<close>

definition AnnotationSpecification :: nt_class where
  "AnnotationSpecification =
     \<lparr>cls_name = ''AnnotationSpecification'',
      cls_fields = [(''arg'', Some PNone),
                    (''vararg'', Some PNone),
                    (''kwarg'', Some PNone),
                    (''returns'', Some PNone)]\<rparr>"

definition WhitelistSpecification :: nt_class where
  "WhitelistSpecification =
     \<lparr>cls_name = ''WhitelistSpecification'',
      cls_fields = [(''parameter_type'', Some PNone),
                    (''parameter_name'', Some PNone)]\<rparr>"

definition DecoratorAnnotationSpecification :: nt_class where
  "DecoratorAnnotationSpecification =
     \<lparr>cls_name = ''DecoratorAnnotationSpecification'',
      cls_fields = [(''decorator'', None),
                    (''arg_annotation'', Some PNone),
                    (''vararg_annotation'', Some PNone),
                    (''kwarg_annotation'', Some PNone),
                    (''return_annotation'', Some PNone),
                    (''parameter_type_whitelist'', Some PNone),
                    (''parameter_name_whitelist'', Some PNone)]\<rparr>"

definition field_names :: "nt_class \<Rightarrow> string list" where
  "field_names c = map fst (cls_fields c)"

subsection \<open>Construction\<close>

text \<open>
  The value of one field that no positional argument filled: the keyword argument of
  that name, else the declared default, else the call fails (a required argument is
  missing).
\<close>

fun fill :: "(string \<times> pyval) list \<Rightarrow> string \<times> pyval option \<Rightarrow> pyerr + pyval" where
  "fill kw (f, d) =
     (case map_of kw f of
        Some v \<Rightarrow> Inr v
      | None \<Rightarrow> (case d of Some v \<Rightarrow> Inr v | None \<Rightarrow> Inl TypeError))"

fun collect :: "(pyerr + pyval) list \<Rightarrow> pyerr + pyval list" where
  "collect [] = Inr []"
| "collect (Inl e # rs) = Inl e"
| "collect (Inr v # rs) = (case collect rs of Inl e \<Rightarrow> Inl e | Inr vs \<Rightarrow> Inr (v # vs))"

text \<open>
  Binding the arguments of the call \<^verbatim>\<open>cls(*args, **kw)\<close> to the fields, as the
  generated \<^verbatim>\<open>__new__(_cls, f1, f2=d2, ...)\<close> does. Every refusal is a
  \<^verbatim>\<open>TypeError\<close>: more positional arguments than fields, a keyword given twice, a
  keyword that names no field, a keyword for a field a positional argument already
  filled, a field without default left unfilled.
\<close>

definition bind_args :: "nt_class \<Rightarrow> pyval list \<Rightarrow> (string \<times> pyval) list \<Rightarrow> pyerr + pyval list" where
  "bind_args c args kw =
     (let fs = cls_fields c; n = length args in
      if length fs < n then Inl TypeError
      else if \<not> distinct (map fst kw) then Inl TypeError
      else if list_ex (\<lambda>k. k \<notin> set (map fst fs)) (map fst kw) then Inl TypeError
      else if list_ex (\<lambda>k. k \<in> set (take n (map fst fs))) (map fst kw) then Inl TypeError
      else (case collect (map (fill kw) (drop n fs)) of
              Inl e \<Rightarrow> Inl e
            | Inr vs \<Rightarrow> Inr (args @ vs)))"

definition alloc_tuple :: "pytuple \<Rightarrow> heap \<Rightarrow> addr \<times> heap" where
  "alloc_tuple t h = (length (tuples h), h\<lparr>tuples := tuples h @ [t]\<rparr>)"

definition alloc_set :: "string set \<Rightarrow> heap \<Rightarrow> addr \<times> heap" where
  "alloc_set s h = (length (sets h), h\<lparr>sets := sets h @ [s]\<rparr>)"

text \<open>The call \<^verbatim>\<open>cls(*args, **kw)\<close>: the address of the new instance and the new heap.\<close>

definition new :: "nt_class \<Rightarrow> pyval list \<Rightarrow> (string \<times> pyval) list \<Rightarrow> heap \<Rightarrow> pyerr + addr \<times> heap" where
  "new c args kw h =
     (case bind_args c args kw of
        Inl e \<Rightarrow> Inl e
      | Inr vs \<Rightarrow> Inr (alloc_tuple \<lparr>tp_class = Some c, tp_items = vs\<rparr> h))"

subsection \<open>Reading\<close>

definition tuple_at :: "heap \<Rightarrow> addr \<Rightarrow> pyerr + pytuple" where
  "tuple_at h a = (if a < length (tuples h) then Inr (tuples h ! a) else Inl SystemError)"

definition set_at :: "heap \<Rightarrow> addr \<Rightarrow> pyerr + string set" where
  "set_at h s = (if s < length (sets h) then Inr (sets h ! s) else Inl SystemError)"

text \<open>\<^verbatim>\<open>t[i]\<close>: a negative index counts from the end.\<close>

definition getitem :: "heap \<Rightarrow> addr \<Rightarrow> int \<Rightarrow> pyerr + pyval" where
  "getitem h a i =
     (case tuple_at h a of
        Inl e \<Rightarrow> Inl e
      | Inr t \<Rightarrow>
          (let n = int (length (tp_items t)); j = (if i < 0 then i + n else i) in
           if 0 \<le> j \<and> j < n then Inr (tp_items t ! nat j) else Inl IndexError))"

fun index_of :: "'a \<Rightarrow> 'a list \<Rightarrow> nat option" where
  "index_of x [] = None"
| "index_of x (y # ys) =
     (if x = y then Some 0 else (case index_of x ys of None \<Rightarrow> None | Some i \<Rightarrow> Some (Suc i)))"

text \<open>
  \<^verbatim>\<open>t.name\<close> for a field name: the class holds one descriptor per field, which
  reads the item at the field's position. Names that are no field are refused here; the
  methods every tuple has (\<^verbatim>\<open>count\<close>, \<^verbatim>\<open>_replace\<close>, ...) are not values of the model.
\<close>

definition getfield :: "heap \<Rightarrow> addr \<Rightarrow> string \<Rightarrow> pyerr + pyval" where
  "getfield h a name =
     (case tuple_at h a of
        Inl e \<Rightarrow> Inl e
      | Inr t \<Rightarrow>
          (case tp_class t of
             None \<Rightarrow> Inl AttributeError
           | Some c \<Rightarrow>
               (case index_of name (field_names c) of
                  None \<Rightarrow> Inl AttributeError
                | Some i \<Rightarrow> getitem h a (int i))))"

subsection \<open>Equality\<close>

text \<open>
  \<^verbatim>\<open>v == w\<close> on field values: identical objects are equal, two sets are equal when
  they hold the same strings, values of different types are unequal.
\<close>

fun val_eq :: "heap \<Rightarrow> pyval \<Rightarrow> pyval \<Rightarrow> bool" where
  "val_eq h PNone PNone = True"
| "val_eq h (PStr s) (PStr t) = (s = t)"
| "val_eq h (PSet a) (PSet b) =
     (a = b \<or> (a < length (sets h) \<and> b < length (sets h) \<and> sets h ! a = sets h ! b))"
| "val_eq h _ _ = False"

text \<open>
  \<^verbatim>\<open>t == u\<close> on tuple objects is \<^verbatim>\<open>tuple.__eq__\<close>, which the three classes
  inherit: same length and equal items, position by position. The classes of the two
  objects play no part.
\<close>

definition tuple_eq :: "heap \<Rightarrow> addr \<Rightarrow> addr \<Rightarrow> pyerr + bool" where
  "tuple_eq h a b =
     (case tuple_at h a of
        Inl e \<Rightarrow> Inl e
      | Inr t \<Rightarrow>
          (case tuple_at h b of
             Inl e \<Rightarrow> Inl e
           | Inr u \<Rightarrow> Inr (list_all2 (val_eq h) (tp_items t) (tp_items u))))"

subsection \<open>Operations\<close>

text \<open>
  What a program can do to the objects of the heap: assign to or delete an attribute or
  an item of a tuple object, assign a class to its \<^verbatim>\<open>__class__\<close>, construct an
  instance or a plain tuple, call \<^verbatim>\<open>_replace\<close>, build a set, and call
  \<^verbatim>\<open>add\<close>, \<^verbatim>\<open>discard\<close> or \<^verbatim>\<open>clear\<close> on a set. \<open>SetAttr\<close> assigns a value
  of the model (\<^verbatim>\<open>None\<close>, a string, a set); \<open>SetClass a k\<close> is
  \<^verbatim>\<open>a.__class__ = k\<close> for a class \<open>k\<close>, \<open>Some c\<close> being a named-tuple class and
  \<open>None\<close> the builtin \<^verbatim>\<open>tuple\<close>. The class objects themselves are as declared:
  nothing here assigns to an attribute of a class.
\<close>

datatype op =
    SetAttr addr string pyval
  | DelAttr addr string
  | SetItem addr int pyval
  | DelItem addr int
  | SetClass addr "nt_class option"
  | New nt_class "pyval list" "(string \<times> pyval) list"
  | Replace addr "(string \<times> pyval) list"
  | MkTuple "pyval list"
  | MkSet "string list"
  | SetAdd addr string
  | SetDiscard addr string
  | SetClear addr

datatype pyres = Done | TupleRef addr | SetRef addr

text \<open>
  \<^verbatim>\<open>t._replace(**kw)\<close> builds a new instance from the items of \<open>t\<close>, each
  replaced by the keyword argument of its field's name when there is one; a keyword
  that names no field is a \<^verbatim>\<open>ValueError\<close>. The instance \<open>t\<close> is left as it is.
\<close>

definition replace_items :: "nt_class \<Rightarrow> pyval list \<Rightarrow> (string \<times> pyval) list \<Rightarrow> pyerr + pyval list" where
  "replace_items c items kw =
     (let vs = map (\<lambda>(f, v). case map_of kw f of Some x \<Rightarrow> x | None \<Rightarrow> v)
                   (zip (field_names c) items) in
      if \<not> distinct (map fst kw) then Inl TypeError
      else if length vs \<noteq> length (field_names c) then Inl TypeError
      else if list_ex (\<lambda>k. k \<notin> set (field_names c)) (map fst kw) then Inl ValueError
      else Inr vs)"

definition update_set :: "addr \<Rightarrow> (string set \<Rightarrow> string set) \<Rightarrow> heap \<Rightarrow> (pyerr + pyres) \<times> heap" where
  "update_set s f h =
     (if s < length (sets h) then (Inr Done, h\<lparr>sets := (sets h)[s := f (sets h ! s)]\<rparr>)
      else (Inl SystemError, h))"

text \<open>
  One operation: its result or exception, and the heap after it.

  A tuple object has no instance dictionary, and the only attribute with a setter is
  \<^verbatim>\<open>__class__\<close>. Assigning to or deleting any other name raises
  \<^verbatim>\<open>AttributeError\<close>; assigning a value that is no class to \<^verbatim>\<open>__class__\<close>, or
  deleting it, raises \<^verbatim>\<open>TypeError\<close>. A tuple supports no item assignment or
  deletion (\<^verbatim>\<open>TypeError\<close>).

  Assigning a class to \<^verbatim>\<open>__class__\<close> is accepted when both the object's class and
  the new one are named-tuple classes (they share the layout of \<^verbatim>\<open>tuple\<close> with no
  slot added, whatever their numbers of fields), and refused with \<^verbatim>\<open>TypeError\<close>
  when either is the builtin \<^verbatim>\<open>tuple\<close>. The items stay; the object is from then
  on read through the descriptors of its new class.
\<close>

fun exec :: "op \<Rightarrow> heap \<Rightarrow> (pyerr + pyres) \<times> heap" where
  "exec (SetAttr a name v) h =
     (case tuple_at h a of
        Inl e \<Rightarrow> (Inl e, h)
      | Inr t \<Rightarrow> (Inl (if name = ''__class__'' then TypeError else AttributeError), h))"
| "exec (DelAttr a name) h =
     (case tuple_at h a of
        Inl e \<Rightarrow> (Inl e, h)
      | Inr t \<Rightarrow> (Inl (if name = ''__class__'' then TypeError else AttributeError), h))"
| "exec (SetItem a i v) h =
     (case tuple_at h a of Inl e \<Rightarrow> (Inl e, h) | Inr t \<Rightarrow> (Inl TypeError, h))"
| "exec (DelItem a i) h =
     (case tuple_at h a of Inl e \<Rightarrow> (Inl e, h) | Inr t \<Rightarrow> (Inl TypeError, h))"
| "exec (SetClass a k) h =
     (case tuple_at h a of
        Inl e \<Rightarrow> (Inl e, h)
      | Inr t \<Rightarrow>
          (case tp_class t of
             None \<Rightarrow> (Inl TypeError, h)
           | Some c \<Rightarrow>
               (case k of
                  None \<Rightarrow> (Inl TypeError, h)
                | Some c' \<Rightarrow> (Inr Done, h\<lparr>tuples := (tuples h)[a := t\<lparr>tp_class := Some c'\<rparr>]\<rparr>))))"
| "exec (New c args kw) h =
     (case new c args kw h of Inl e \<Rightarrow> (Inl e, h) | Inr (a, h') \<Rightarrow> (Inr (TupleRef a), h'))"
| "exec (Replace a kw) h =
     (case tuple_at h a of
        Inl e \<Rightarrow> (Inl e, h)
      | Inr t \<Rightarrow>
          (case tp_class t of
             None \<Rightarrow> (Inl AttributeError, h)
           | Some c \<Rightarrow>
               (case replace_items c (tp_items t) kw of
                  Inl e \<Rightarrow> (Inl e, h)
                | Inr vs \<Rightarrow>
                    (case alloc_tuple \<lparr>tp_class = Some c, tp_items = vs\<rparr> h of
                       (b, h') \<Rightarrow> (Inr (TupleRef b), h')))))"
| "exec (MkTuple vs) h =
     (case alloc_tuple \<lparr>tp_class = None, tp_items = vs\<rparr> h of (b, h') \<Rightarrow> (Inr (TupleRef b), h'))"
| "exec (MkSet xs) h =
     (case alloc_set (set xs) h of (s, h') \<Rightarrow> (Inr (SetRef s), h'))"
| "exec (SetAdd s x) h = update_set s (insert x) h"
| "exec (SetDiscard s x) h = update_set s (\<lambda>S. S - {x}) h"
| "exec (SetClear s) h = update_set s (\<lambda>S. {}) h"



text \<open>An instance of a class: a tuple object of that class with one item per field.\<close>

definition instance_of :: "heap \<Rightarrow> addr \<Rightarrow> nt_class \<Rightarrow> bool" where
  "instance_of h a c =
     (a < length (tuples h) \<and> tp_class (tuples h ! a) = Some c \<and>
      length (tp_items (tuples h ! a)) = length (cls_fields c))"

subsection \<open>The consumer of the specifications\<close>

text \<open>
  Modelled from the spec: the generator that reads the records is not in this module.
  The spec's words for its exemption rule: a parameter is exempt if its type is present
  in the type whitelist when that set is set, or its name is present in the name
  whitelist when that set is set; if both sets are unset, nothing is exempt.
  \<open>listed h w x\<close> is one of the two disjuncts: the field value \<open>w\<close> is a set and holds
  \<open>x\<close>.
\<close>

definition listed :: "heap \<Rightarrow> pyval \<Rightarrow> string \<Rightarrow> bool" where
  "listed h w x = (case w of PSet s \<Rightarrow> s < length (sets h) \<and> x \<in> sets h ! s | _ \<Rightarrow> False)"

text \<open>
  Modelled from the spec: exemption under the whitelist held in the fields \<open>tf\<close> (types)
  and \<open>nf\<close> (names) of the record at \<open>a\<close>.
\<close>

definition exempt_by :: "string \<Rightarrow> string \<Rightarrow> heap \<Rightarrow> addr \<Rightarrow> string \<Rightarrow> string \<Rightarrow> pyerr + bool" where
  "exempt_by tf nf h a ptype pname =
     (case getfield h a tf of
        Inl e \<Rightarrow> Inl e
      | Inr ts \<Rightarrow>
          (case getfield h a nf of
             Inl e \<Rightarrow> Inl e
           | Inr ns \<Rightarrow> Inr (listed h ts ptype \<or> listed h ns pname)))"

text \<open>Modelled from the spec: exemption under a \<^verbatim>\<open>WhitelistSpecification\<close>.\<close>

definition exempt :: "heap \<Rightarrow> addr \<Rightarrow> string \<Rightarrow> string \<Rightarrow> pyerr + bool" where
  "exempt = exempt_by ''parameter_type'' ''parameter_name''"

text \<open>
  Modelled from the spec: exemption under the whitelist a
  \<^verbatim>\<open>DecoratorAnnotationSpecification\<close> holds inline.
\<close>

definition decorator_exempt :: "heap \<Rightarrow> addr \<Rightarrow> string \<Rightarrow> string \<Rightarrow> pyerr + bool" where
  "decorator_exempt = exempt_by ''parameter_type_whitelist'' ''parameter_name_whitelist''"

text \<open>
  Modelled from the spec: the lookup. Given the decorator names of a callable, the
  consumer goes through the known specifications and selects the entries whose
  \<^verbatim>\<open>decorator\<close> field textually matches one of them. The spec leaves open what
  happens with two entries of one key, so the lookup returns every match, in table
  order.
\<close>

definition decorator_matches :: "heap \<Rightarrow> string list \<Rightarrow> addr \<Rightarrow> bool" where
  "decorator_matches h decorators a =
     (case getfield h a ''decorator'' of
        Inr (PStr d) \<Rightarrow> d \<in> set decorators
      | _ \<Rightarrow> False)"

definition lookup :: "heap \<Rightarrow> addr list \<Rightarrow> string list \<Rightarrow> addr list" where
  "lookup h table decorators = filter (decorator_matches h decorators) table"

text \<open>
  Modelled from the spec: the annotation a field prescribes. An unset field means that
  the position is left without annotation.
\<close>

definition annotation_of :: "heap \<Rightarrow> addr \<Rightarrow> string \<Rightarrow> pyerr + string option" where
  "annotation_of h a f =
     (case getfield h a f of
        Inl e \<Rightarrow> Inl e
      | Inr (PStr s) \<Rightarrow> Inr (Some s)
      | Inr _ \<Rightarrow> Inr None)"

text \<open>
  Modelled from the spec: the annotation of a positional-or-keyword parameter of a
  callable the specification at \<open>a\<close> was selected for. An exempt parameter is skipped.
\<close>

definition parameter_annotation :: "heap \<Rightarrow> addr \<Rightarrow> string \<Rightarrow> string \<Rightarrow> pyerr + string option" where
  "parameter_annotation h a ptype pname =
     (case decorator_exempt h a ptype pname of
        Inl e \<Rightarrow> Inl e
      | Inr True \<Rightarrow> Inr None
      | Inr False \<Rightarrow> annotation_of h a ''arg_annotation'')"

section \<open>Properties\<close>

subsection \<open>Binding arguments\<close>

lemma collect_fill_ok:
  "list_all (\<lambda>(f, d). map_of kw f \<noteq> None \<or> d \<noteq> None) fs \<Longrightarrow>
   collect (map (fill kw) fs) =
     Inr (map (\<lambda>(f, d). case map_of kw f of Some v \<Rightarrow> v | None \<Rightarrow> the d) fs)"
  by (induction fs) (auto split: option.splits)

lemma collect_fill_missing:
  "(f, None) \<in> set fs \<Longrightarrow> map_of kw f = None \<Longrightarrow> collect (map (fill kw) fs) = Inl TypeError"
proof (induction fs)
  case Nil
  then show ?case by simp
next
  case (Cons p fs)
  obtain g d where p: "p = (g, d)" by (cases p)
  show ?case
  proof (cases "fill kw p")
    case (Inl e)
    then have "e = TypeError" by (auto simp: p split: option.splits)
    with Inl show ?thesis by simp
  next
    case (Inr v)
    with Cons p have "(f, None) \<in> set fs" by (auto split: option.splits)
    with Cons Inr show ?thesis by simp
  qed
qed

lemma collect_error: "collect rs = Inl e \<Longrightarrow> Inl e \<in> set rs"
  by (induction rs rule: collect.induct) (auto split: sum.splits)

lemma bind_args_error: "bind_args c args kw = Inl e \<Longrightarrow> e = TypeError"
  by (auto simp: bind_args_def Let_def split: if_splits sum.splits option.splits dest!: collect_error)

lemma collect_ok: "collect rs = Inr vs \<Longrightarrow> rs = map Inr vs"
  by (induction rs arbitrary: vs rule: collect.induct) (auto split: sum.splits)

lemma bind_args_ok:
  assumes "bind_args c args kw = Inr vs"
  shows "length args \<le> length (cls_fields c)"
    and "distinct (map fst kw)"
    and "set (map fst kw) \<subseteq> set (field_names c)"
    and "set (map fst kw) \<inter> set (take (length args) (field_names c)) = {}"
    and "\<exists>ws. vs = args @ ws \<and> map (fill kw) (drop (length args) (cls_fields c)) = map Inr ws"
  using assms
  by (auto simp: bind_args_def Let_def field_names_def list_ex_iff take_map
      split: if_splits sum.splits dest!: collect_ok)

lemma bind_args_length: "bind_args c args kw = Inr vs \<Longrightarrow> length vs = length (cls_fields c)"
proof -
  assume a: "bind_args c args kw = Inr vs"
  from bind_args_ok(5)[OF a] obtain ws where
    ws: "vs = args @ ws" "map (fill kw) (drop (length args) (cls_fields c)) = map Inr ws" by blast
  from ws(2) have "length ws = length (cls_fields c) - length args"
    by (metis length_drop length_map)
  with ws(1) bind_args_ok(1)[OF a] show ?thesis by simp
qed

lemma bind_args_nth:
  assumes a: "bind_args c args kw = Inr vs" and i: "i < length (cls_fields c)"
  shows "vs ! i = (if i < length args then args ! i
                   else (case map_of kw (fst (cls_fields c ! i)) of
                           Some v \<Rightarrow> v
                         | None \<Rightarrow> the (snd (cls_fields c ! i))))"
proof (cases "i < length args")
  case True
  with bind_args_ok(5)[OF a] show ?thesis by (auto simp: nth_append)
next
  case False
  from bind_args_ok(5)[OF a] obtain ws where
    ws: "vs = args @ ws" "map (fill kw) (drop (length args) (cls_fields c)) = map Inr ws" by blast
  let ?j = "i - length args"
  have len: "length ws = length (cls_fields c) - length args"
    using ws(2) by (metis length_drop length_map)
  with False i have j: "?j < length ws" by simp
  have "map (fill kw) (drop (length args) (cls_fields c)) ! ?j = map Inr ws ! ?j"
    using ws(2) by simp
  with j len False i have "fill kw (cls_fields c ! i) = Inr (ws ! ?j)" by simp
  then have "ws ! ?j = (case map_of kw (fst (cls_fields c ! i)) of
                           Some v \<Rightarrow> v
                         | None \<Rightarrow> the (snd (cls_fields c ! i)))"
    by (cases "cls_fields c ! i") (auto split: option.splits)
  with False ws(1) show ?thesis by (simp add: nth_append)
qed

lemma index_of_distinct: "distinct xs \<Longrightarrow> i < length xs \<Longrightarrow> index_of (xs ! i) xs = Some i"
proof (induction xs arbitrary: i)
  case Nil
  then show ?case by simp
next
  case (Cons y ys)
  show ?case
  proof (cases i)
    case 0
    then show ?thesis by simp
  next
    case (Suc j)
    with Cons.prems have "j < length ys" "ys ! j \<noteq> y" "distinct ys" by auto
    with Cons.IH[of j] Suc show ?thesis by simp
  qed
qed

lemma getitem_nat:
  "a < length (tuples h) \<Longrightarrow> i < length (tp_items (tuples h ! a)) \<Longrightarrow>
   getitem h a (int i) = Inr (tp_items (tuples h ! a) ! i)"
  by (simp add: getitem_def tuple_at_def)

lemma getfield_instance:
  assumes "instance_of h a c" "i < length (cls_fields c)" "distinct (field_names c)"
  shows "getfield h a (field_names c ! i) = Inr (tp_items (tuples h ! a) ! i)"
  using assms index_of_distinct[of "field_names c" i]
  by (simp add: getfield_def tuple_at_def instance_of_def getitem_nat field_names_def)

lemma new_ok:
  assumes "new c args kw h = Inr (a, h')"
  shows "\<exists>vs. bind_args c args kw = Inr vs \<and> a = length (tuples h) \<and>
           h' = h\<lparr>tuples := tuples h @ [\<lparr>tp_class = Some c, tp_items = vs\<rparr>]\<rparr>"
  using assms by (auto simp: new_def alloc_tuple_def split: sum.splits)

lemma new_instance: "new c args kw h = Inr (a, h') \<Longrightarrow> instance_of h' a c"
  by (auto dest!: new_ok simp: instance_of_def bind_args_length)

subsection \<open>Construction by keyword\<close>

lemma bind_args_keywords:
  assumes "distinct (map fst kw)"
    and "set (map fst kw) \<subseteq> set (field_names c)"
    and "list_all (\<lambda>(f, d). f \<in> set (map fst kw) \<or> d \<noteq> None) (cls_fields c)"
  shows "\<exists>vs. bind_args c [] kw = Inr vs"
proof -
  have "list_all (\<lambda>(f, d). map_of kw f \<noteq> None \<or> d \<noteq> None) (cls_fields c)"
    using assms(3) by (auto simp: list_all_iff map_of_eq_None_iff)
  from collect_fill_ok[OF this] assms(1,2) show ?thesis
    by (auto simp: bind_args_def Let_def field_names_def list_ex_iff)
qed

lemma new_keywords:
  assumes "distinct (map fst kw)"
    and "set (map fst kw) \<subseteq> set (field_names c)"
    and "list_all (\<lambda>(f, d). f \<in> set (map fst kw) \<or> d \<noteq> None) (cls_fields c)"
  shows "\<exists>a h'. new c [] kw h = Inr (a, h')"
  using bind_args_keywords[OF assms] by (auto simp: new_def alloc_tuple_def)

lemma new_missing_required:
  assumes "(f, None) \<in> set (cls_fields c)" and "f \<notin> set (map fst kw)"
  shows "new c [] kw h = Inl TypeError"
proof -
  from assms(2) have "map_of kw f = None" by (simp add: map_of_eq_None_iff)
  from collect_fill_missing[OF assms(1) this]
  show ?thesis by (simp add: new_def bind_args_def Let_def)
qed

lemma new_error: "new c args kw h = Inl e \<Longrightarrow> e = TypeError"
  by (auto simp: new_def split: sum.splits dest: bind_args_error)

lemma getfield_new:
  assumes n: "new c args kw h = Inr (a, h')"
    and d: "distinct (field_names c)"
    and i: "i < length (cls_fields c)"
  shows "getfield h' a (field_names c ! i) =
           Inr (if i < length args then args ! i
                else (case map_of kw (field_names c ! i) of
                        Some v \<Rightarrow> v
                      | None \<Rightarrow> the (snd (cls_fields c ! i))))"
proof -
  from new_ok[OF n] obtain vs where vs: "bind_args c args kw = Inr vs"
    "a = length (tuples h)"
    "h' = h\<lparr>tuples := tuples h @ [\<lparr>tp_class = Some c, tp_items = vs\<rparr>]\<rparr>" by blast
  have "getfield h' a (field_names c ! i) = Inr (tp_items (tuples h' ! a) ! i)"
    by (rule getfield_instance[OF new_instance[OF n] i d])
  also have "tp_items (tuples h' ! a) = vs" using vs(2,3) by simp
  finally show ?thesis using bind_args_nth[OF vs(1) i] i by (simp add: field_names_def)
qed

lemma getfield_new_keywords:
  assumes n: "new c [] kw h = Inr (a, h')"
    and d: "distinct (field_names c)"
    and f: "(f, dflt) \<in> set (cls_fields c)"
  shows "getfield h' a f = Inr (case map_of kw f of Some v \<Rightarrow> v | None \<Rightarrow> the dflt)"
proof -
  from f obtain i where i: "i < length (cls_fields c)" "cls_fields c ! i = (f, dflt)"
    by (auto simp: in_set_conv_nth)
  from getfield_new[OF n d i(1)] i show ?thesis
    by (simp add: field_names_def split: option.splits)
qed

subsection \<open>The declared fields\<close>

lemma cls_fields_simps:
  "cls_fields AnnotationSpecification =
     [(''arg'', Some PNone), (''vararg'', Some PNone), (''kwarg'', Some PNone),
      (''returns'', Some PNone)]"
  "cls_fields WhitelistSpecification =
     [(''parameter_type'', Some PNone), (''parameter_name'', Some PNone)]"
  "cls_fields DecoratorAnnotationSpecification =
     [(''decorator'', None), (''arg_annotation'', Some PNone),
      (''vararg_annotation'', Some PNone), (''kwarg_annotation'', Some PNone),
      (''return_annotation'', Some PNone), (''parameter_type_whitelist'', Some PNone),
      (''parameter_name_whitelist'', Some PNone)]"
  by (simp_all add: AnnotationSpecification_def WhitelistSpecification_def
      DecoratorAnnotationSpecification_def)

lemma field_names_simps:
  "field_names AnnotationSpecification = [''arg'', ''vararg'', ''kwarg'', ''returns'']"
  "field_names WhitelistSpecification = [''parameter_type'', ''parameter_name'']"
  "field_names DecoratorAnnotationSpecification =
     [''decorator'', ''arg_annotation'', ''vararg_annotation'', ''kwarg_annotation'',
      ''return_annotation'', ''parameter_type_whitelist'', ''parameter_name_whitelist'']"
  by (simp_all add: field_names_def cls_fields_simps)

lemma distinct_field_names:
  "distinct (field_names AnnotationSpecification)"
  "distinct (field_names WhitelistSpecification)"
  "distinct (field_names DecoratorAnnotationSpecification)"
  by (simp_all add: field_names_simps)

lemma declared_defaults:
  "(f, d) \<in> set (cls_fields AnnotationSpecification) \<Longrightarrow> d = Some PNone"
  "(f, d) \<in> set (cls_fields WhitelistSpecification) \<Longrightarrow> d = Some PNone"
  "(f, d) \<in> set (cls_fields DecoratorAnnotationSpecification) \<Longrightarrow>
     d = Some PNone \<or> (f = ''decorator'' \<and> d = None)"
  by (auto simp: cls_fields_simps)

text \<open>
  A call with keyword arguments only, on a class whose field names are distinct: when
  the keywords are distinct field names and cover the fields without default, the call
  succeeds and every field reads the keyword's value, or the default.
\<close>

lemma new_keywords_getfield:
  assumes dc: "distinct (field_names c)"
    and dk: "distinct (map fst kw)"
    and sub: "set (map fst kw) \<subseteq> set (field_names c)"
    and req: "list_all (\<lambda>(f, d). f \<in> set (map fst kw) \<or> d \<noteq> None) (cls_fields c)"
  shows "\<exists>a h'. new c [] kw h = Inr (a, h') \<and>
           list_all (\<lambda>(f, d). getfield h' a f =
                       Inr (case map_of kw f of Some v \<Rightarrow> v | None \<Rightarrow> the d))
                    (cls_fields c)"
proof -
  from new_keywords[OF dk sub req] obtain a h' where n: "new c [] kw h = Inr (a, h')"
    by blast
  from getfield_new_keywords[OF n dc] n show ?thesis
    by (auto simp: list_all_iff)
qed

subsection \<open>Construction and reading back\<close>

text \<open>
  C1. For every valid combination of field values, given by keyword (the keywords are
  distinct field names, and \<^verbatim>\<open>decorator\<close> is among them for a
  \<^verbatim>\<open>DecoratorAnnotationSpecification\<close>), constructing any of the three records
  succeeds, and every field reads back the value supplied, or \<^verbatim>\<open>None\<close> when the
  field was omitted. In particular, \<^verbatim>\<open>DecoratorAnnotationSpecification(decorator="staticmethod")\<close>
  has \<^verbatim>\<open>decorator\<close> equal to \<^verbatim>\<open>"staticmethod"\<close> and its six other fields unset.
\<close>

theorem construction_round_trips:
  assumes c: "c \<in> {AnnotationSpecification, WhitelistSpecification, DecoratorAnnotationSpecification}"
    and dk: "distinct (map fst kw)"
    and sub: "set (map fst kw) \<subseteq> set (field_names c)"
    and req: "c = DecoratorAnnotationSpecification \<longrightarrow> ''decorator'' \<in> set (map fst kw)"
  shows "(\<exists>a h'. new c [] kw h = Inr (a, h') \<and>
            (\<forall>f \<in> set (field_names c).
               getfield h' a f = Inr (case map_of kw f of Some v \<Rightarrow> v | None \<Rightarrow> PNone))) \<and>
         (\<exists>a h'. new DecoratorAnnotationSpecification []
                     [(''decorator'', PStr ''staticmethod'')] h = Inr (a, h') \<and>
            getfield h' a ''decorator'' = Inr (PStr ''staticmethod'') \<and>
            (\<forall>f \<in> {''arg_annotation'', ''vararg_annotation'', ''kwarg_annotation'',
                    ''return_annotation'', ''parameter_type_whitelist'',
                    ''parameter_name_whitelist''}.
               getfield h' a f = Inr PNone))"
proof
  have dc: "distinct (field_names c)" using c distinct_field_names by auto
  have dd: "d = Some PNone \<or> f \<in> set (map fst kw)" if "(f, d) \<in> set (cls_fields c)" for f d
    using c req that declared_defaults[of f d] by auto
  then have "list_all (\<lambda>(f, d). f \<in> set (map fst kw) \<or> d \<noteq> None) (cls_fields c)"
    unfolding list_all_iff by fastforce
  from new_keywords_getfield[OF dc dk sub this, of h] obtain a h' where
    n: "new c [] kw h = Inr (a, h')" and
    g: "list_all (\<lambda>(f, d). getfield h' a f =
                    Inr (case map_of kw f of Some v \<Rightarrow> v | None \<Rightarrow> the d)) (cls_fields c)"
    by blast
  have "getfield h' a f = Inr (case map_of kw f of Some v \<Rightarrow> v | None \<Rightarrow> PNone)"
    if "f \<in> set (field_names c)" for f
  proof -
    from that obtain d where fd: "(f, d) \<in> set (cls_fields c)"
      by (auto simp: field_names_def)
    from dd[OF fd] have "map_of kw f \<noteq> None \<or> d = Some PNone"
      by (auto simp: map_of_eq_None_iff)
    moreover from g fd have
      "getfield h' a f = Inr (case map_of kw f of Some v \<Rightarrow> v | None \<Rightarrow> the d)"
      by (auto simp: list_all_iff)
    ultimately show ?thesis by (auto split: option.splits)
  qed
  with n show "\<exists>a h'. new c [] kw h = Inr (a, h') \<and>
            (\<forall>f \<in> set (field_names c).
               getfield h' a f = Inr (case map_of kw f of Some v \<Rightarrow> v | None \<Rightarrow> PNone))"
    by blast
next
  let ?kw = "[(''decorator'', PStr ''staticmethod'')]"
  have "list_all (\<lambda>(f, d). f \<in> set (map fst ?kw) \<or> d \<noteq> None)
          (cls_fields DecoratorAnnotationSpecification)"
    by (simp add: cls_fields_simps)
  from new_keywords_getfield[OF distinct_field_names(3) _ _ this, of h] obtain a h' where
    n: "new DecoratorAnnotationSpecification [] ?kw h = Inr (a, h')" and
    g: "list_all (\<lambda>(f, d). getfield h' a f =
                    Inr (case map_of ?kw f of Some v \<Rightarrow> v | None \<Rightarrow> the d))
          (cls_fields DecoratorAnnotationSpecification)"
    by (auto simp: field_names_simps)
  from g have "getfield h' a ''decorator'' = Inr (PStr ''staticmethod'') \<and>
            (\<forall>f \<in> {''arg_annotation'', ''vararg_annotation'', ''kwarg_annotation'',
                    ''return_annotation'', ''parameter_type_whitelist'',
                    ''parameter_name_whitelist''}.
               getfield h' a f = Inr PNone)"
    by (simp add: cls_fields_simps)
  with n show "\<exists>a h'. new DecoratorAnnotationSpecification [] ?kw h = Inr (a, h') \<and>
            getfield h' a ''decorator'' = Inr (PStr ''staticmethod'') \<and>
            (\<forall>f \<in> {''arg_annotation'', ''vararg_annotation'', ''kwarg_annotation'',
                    ''return_annotation'', ''parameter_type_whitelist'',
                    ''parameter_name_whitelist''}.
               getfield h' a f = Inr PNone)"
    by blast
qed

theorem construction_round_trips_witness:
  "\<exists>a h'. new DecoratorAnnotationSpecification []
             [(''parameter_name_whitelist'', PSet 0), (''decorator'', PStr ''cached_property'')]
             \<lparr>sets = [{''self''}], tuples = []\<rparr> = Inr (a, h') \<and>
          getfield h' a ''decorator'' = Inr (PStr ''cached_property'') \<and>
          getfield h' a ''arg_annotation'' = Inr PNone \<and>
          getfield h' a ''vararg_annotation'' = Inr PNone \<and>
          getfield h' a ''kwarg_annotation'' = Inr PNone \<and>
          getfield h' a ''return_annotation'' = Inr PNone \<and>
          getfield h' a ''parameter_type_whitelist'' = Inr PNone \<and>
          getfield h' a ''parameter_name_whitelist'' = Inr (PSet 0)"
  using construction_round_trips[of DecoratorAnnotationSpecification
      "[(''parameter_name_whitelist'', PSet 0), (''decorator'', PStr ''cached_property'')]"
      "\<lparr>sets = [{''self''}], tuples = []\<rparr>"]
  by (simp add: field_names_simps)

subsection \<open>Construction with positional and keyword arguments\<close>

lemma bind_args_succeeds:
  assumes len: "length args \<le> length (cls_fields c)"
    and dc: "distinct (field_names c)"
    and dk: "distinct (map fst kw)"
    and sub: "set (map fst kw) \<subseteq> set (drop (length args) (field_names c))"
    and req: "list_all (\<lambda>(f, d). f \<in> set (map fst kw) \<or> d \<noteq> None)
                (drop (length args) (cls_fields c))"
  shows "\<exists>vs. bind_args c args kw = Inr vs"
proof -
  have "list_all (\<lambda>(f, d). map_of kw f \<noteq> None \<or> d \<noteq> None) (drop (length args) (cls_fields c))"
    using req by (auto simp: list_all_iff map_of_eq_None_iff)
  note ok = collect_fill_ok[OF this]
  have "set (take (length args) (field_names c)) \<inter> set (drop (length args) (field_names c)) = {}"
    using dc by (rule set_take_disj_set_drop_if_distinct) simp
  with sub have disj: "set (map fst kw) \<inter> set (take (length args) (field_names c)) = {}"
    by blast
  from sub have known: "set (map fst kw) \<subseteq> set (field_names c)"
    by (meson in_set_dropD subset_iff)
  from disj have "\<not> list_ex (\<lambda>k. k \<in> set (take (length args) (map fst (cls_fields c)))) (map fst kw)"
    unfolding list_ex_iff field_names_def by blast
  moreover from known have "\<not> list_ex (\<lambda>k. k \<notin> set (map fst (cls_fields c))) (map fst kw)"
    unfolding list_ex_iff field_names_def by blast
  ultimately show ?thesis using len dk ok
    by (simp add: bind_args_def Let_def)
qed

lemma new_succeeds:
  assumes "length args \<le> length (cls_fields c)"
    and "distinct (field_names c)"
    and "distinct (map fst kw)"
    and "set (map fst kw) \<subseteq> set (drop (length args) (field_names c))"
    and "list_all (\<lambda>(f, d). f \<in> set (map fst kw) \<or> d \<noteq> None)
           (drop (length args) (cls_fields c))"
  shows "\<exists>a h'. new c args kw h = Inr (a, h')"
  using bind_args_succeeds[OF assms] by (auto simp: new_def alloc_tuple_def)

subsection \<open>Failure and success of construction\<close>

text \<open>
  C3. Constructing a \<^verbatim>\<open>DecoratorAnnotationSpecification\<close> without a value for
  \<^verbatim>\<open>decorator\<close> (no positional argument and no keyword of that name) fails
  with the \<^verbatim>\<open>TypeError\<close> of a missing required argument, whatever else is
  supplied. With \<^verbatim>\<open>decorator\<close> supplied, by keyword or as the first positional
  argument, omitting any or all of the six other fields succeeds.
\<close>

theorem decorator_is_required:
  "(''decorator'' \<notin> set (map fst kw) \<longrightarrow>
      new DecoratorAnnotationSpecification [] kw h = Inl TypeError) \<and>
   (distinct (map fst kw) \<and>
    set (map fst kw) \<subseteq> set (field_names DecoratorAnnotationSpecification) \<and>
    ''decorator'' \<in> set (map fst kw) \<longrightarrow>
      (\<exists>a h'. new DecoratorAnnotationSpecification [] kw h = Inr (a, h'))) \<and>
   (distinct (map fst kw) \<and>
    set (map fst kw) \<subseteq> set (tl (field_names DecoratorAnnotationSpecification)) \<longrightarrow>
      (\<exists>a h'. new DecoratorAnnotationSpecification [d] kw h = Inr (a, h')))"
proof (intro conjI impI)
  assume "''decorator'' \<notin> set (map fst kw)"
  then show "new DecoratorAnnotationSpecification [] kw h = Inl TypeError"
    by (intro new_missing_required[of "''decorator''"]) (simp_all add: cls_fields_simps)
next
  assume a: "distinct (map fst kw) \<and>
    set (map fst kw) \<subseteq> set (field_names DecoratorAnnotationSpecification) \<and>
    ''decorator'' \<in> set (map fst kw)"
  then have "list_all (\<lambda>(f, d). f \<in> set (map fst kw) \<or> d \<noteq> None)
               (cls_fields DecoratorAnnotationSpecification)"
    by (simp add: cls_fields_simps)
  with a show "\<exists>a h'. new DecoratorAnnotationSpecification [] kw h = Inr (a, h')"
    by (intro new_keywords) simp_all
next
  assume a: "distinct (map fst kw) \<and>
    set (map fst kw) \<subseteq> set (tl (field_names DecoratorAnnotationSpecification))"
  have "list_all (\<lambda>(f, d). f \<in> set (map fst kw) \<or> d \<noteq> None)
          (drop (length [d]) (cls_fields DecoratorAnnotationSpecification))"
    by (simp add: cls_fields_simps)
  moreover have "set (map fst kw) \<subseteq>
      set (drop (length [d]) (field_names DecoratorAnnotationSpecification))"
    using a by (simp add: drop_Suc)
  ultimately show "\<exists>a h'. new DecoratorAnnotationSpecification [d] kw h = Inr (a, h')"
    using a by (intro new_succeeds distinct_field_names) (simp_all add: cls_fields_simps)
qed

theorem decorator_is_required_witness:
  "new DecoratorAnnotationSpecification [] [(''return_annotation'', PStr ''Any'')] empty_heap
     = Inl TypeError \<and>
   (\<exists>a h'. new DecoratorAnnotationSpecification [] [(''decorator'', PStr ''staticmethod'')]
              empty_heap = Inr (a, h')) \<and>
   (\<exists>a h'. new DecoratorAnnotationSpecification [PStr ''staticmethod''] [] empty_heap
              = Inr (a, h'))"
  using decorator_is_required[of "[(''return_annotation'', PStr ''Any'')]" empty_heap PNone]
    decorator_is_required[of "[(''decorator'', PStr ''staticmethod'')]" empty_heap PNone]
    decorator_is_required[of "[]" empty_heap "PStr ''staticmethod''"]
  by (simp add: field_names_simps)

text \<open>
  C4. Constructing an \<^verbatim>\<open>AnnotationSpecification\<close> or a
  \<^verbatim>\<open>WhitelistSpecification\<close> cannot fail: every call whose arguments name fields
  of the class, each at most once (positional arguments for the first fields, distinct
  keywords for fields after them), succeeds, whatever the values are and also with no
  argument at all. Nothing looks at the values.
\<close>

theorem optional_records_cannot_fail:
  assumes "c \<in> {AnnotationSpecification, WhitelistSpecification}"
    and "length args \<le> length (field_names c)"
    and "distinct (map fst kw)"
    and "set (map fst kw) \<subseteq> set (drop (length args) (field_names c))"
  shows "(\<exists>a h'. new c args kw h = Inr (a, h')) \<and> (\<exists>a h'. new c [] [] h = Inr (a, h'))"
proof -
  have dc: "distinct (field_names c)" using assms(1) distinct_field_names by auto
  have all: "list_all (\<lambda>(f, d). f \<in> set (map fst ks) \<or> d \<noteq> None) (drop n (cls_fields c))"
    for ks :: "(string \<times> pyval) list" and n
    using assms(1) declared_defaults(1,2)
    by (fastforce simp: list_all_iff dest: in_set_dropD)
  have "\<exists>a h'. new c args kw h = Inr (a, h')"
    using assms(2-4) by (intro new_succeeds dc all) (simp_all add: field_names_def)
  moreover have "\<exists>a h'. new c [] [] h = Inr (a, h')"
    by (intro new_succeeds dc all) simp_all
  ultimately show ?thesis by blast
qed

theorem optional_records_cannot_fail_witness:
  "(\<exists>a h'. new AnnotationSpecification [PStr ''TaintSource[UserControlled]'']
              [(''returns'', PStr [])] empty_heap = Inr (a, h')) \<and>
   (\<exists>a h'. new AnnotationSpecification [] [] empty_heap = Inr (a, h'))"
  using optional_records_cannot_fail[of AnnotationSpecification
      "[PStr ''TaintSource[UserControlled]'']" "[(''returns'', PStr [])]" empty_heap]
  by (simp add: field_names_simps)

subsection \<open>The decorator key\<close>

text \<open>
  C2, as the spec states it: every constructed \<^verbatim>\<open>DecoratorAnnotationSpecification\<close>
  has a non-empty \<^verbatim>\<open>decorator\<close>. The class has no check of the value:
  \<^verbatim>\<open>DecoratorAnnotationSpecification(decorator="")\<close> is constructed, and its
  \<^verbatim>\<open>decorator\<close> reads back as the empty string.
\<close>

theorem decorator_nonempty_counterexample:
  "fst (exec (New DecoratorAnnotationSpecification [] [(''decorator'', PStr [])]) empty_heap)
     = Inr (TupleRef 0) \<and>
   getfield (snd (exec (New DecoratorAnnotationSpecification [] [(''decorator'', PStr [])])
                    empty_heap)) 0 ''decorator'' = Inr (PStr [])"
  by (simp add: new_def bind_args_def Let_def cls_fields_simps alloc_tuple_def empty_heap_def
      getfield_def tuple_at_def field_names_simps getitem_def)

text \<open>
  C2, amended: every constructed \<^verbatim>\<open>DecoratorAnnotationSpecification\<close> has the
  \<^verbatim>\<open>decorator\<close> it was given (the first positional argument, or the keyword of
  that name), unchanged; construction requires the value and does not look at it, so
  every string is accepted, the empty one too.
\<close>

theorem decorator_stored_as_supplied:
  "(new DecoratorAnnotationSpecification args kw h = Inr (a, h') \<longrightarrow>
      (\<exists>v. (case args of d # _ \<Rightarrow> Some d | [] \<Rightarrow> map_of kw ''decorator'') = Some v \<and>
           getfield h' a ''decorator'' = Inr v)) \<and>
   (\<exists>b h''. new DecoratorAnnotationSpecification [] [(''decorator'', PStr s)] h = Inr (b, h'') \<and>
       getfield h'' b ''decorator'' = Inr (PStr s))"
proof (intro conjI impI)
  assume n: "new DecoratorAnnotationSpecification args kw h = Inr (a, h')"
  note g = getfield_new[OF n distinct_field_names(3), of 0]
  show "\<exists>v. (case args of d # _ \<Rightarrow> Some d | [] \<Rightarrow> map_of kw ''decorator'') = Some v \<and>
           getfield h' a ''decorator'' = Inr v"
  proof (cases args)
    case (Cons d rest)
    with g show ?thesis by (simp add: cls_fields_simps field_names_simps)
  next
    case Nil
    have "map_of kw ''decorator'' \<noteq> None"
    proof
      assume "map_of kw ''decorator'' = None"
      then have "''decorator'' \<notin> set (map fst kw)" by (simp add: map_of_eq_None_iff)
      then have "new DecoratorAnnotationSpecification [] kw h = Inl TypeError"
        by (intro new_missing_required[of "''decorator''"]) (simp_all add: cls_fields_simps)
      with n Nil show False by simp
    qed
    with g Nil show ?thesis
      by (auto simp: cls_fields_simps field_names_simps split: option.splits)
  qed
next
  have "list_all (\<lambda>(f, d). f \<in> set (map fst [(''decorator'', PStr s)]) \<or> d \<noteq> None)
          (cls_fields DecoratorAnnotationSpecification)"
    by (simp add: cls_fields_simps)
  from new_keywords_getfield[OF distinct_field_names(3) _ _ this, of h]
  show "\<exists>b h''. new DecoratorAnnotationSpecification [] [(''decorator'', PStr s)] h = Inr (b, h'') \<and>
       getfield h'' b ''decorator'' = Inr (PStr s)"
    by (auto simp: field_names_simps cls_fields_simps)
qed

theorem decorator_stored_as_supplied_witness:
  "getfield \<lparr>sets = [], tuples = [\<lparr>tp_class = Some DecoratorAnnotationSpecification,
       tp_items = [PStr ''staticmethod'', PNone, PNone, PNone, PNone, PNone, PNone]\<rparr>]\<rparr>
     0 ''decorator'' = Inr (PStr ''staticmethod'') \<and>
   (\<exists>b h''. new DecoratorAnnotationSpecification [] [(''decorator'', PStr [])] empty_heap
               = Inr (b, h'') \<and>
       getfield h'' b ''decorator'' = Inr (PStr []))"
proof -
  let ?h = "\<lparr>sets = [], tuples = [\<lparr>tp_class = Some DecoratorAnnotationSpecification,
       tp_items = [PStr ''staticmethod'', PNone, PNone, PNone, PNone, PNone, PNone]\<rparr>]\<rparr>"
  have n: "new DecoratorAnnotationSpecification [PStr ''staticmethod''] [] empty_heap
             = Inr (0, ?h)"
    by (simp add: new_def bind_args_def Let_def cls_fields_simps alloc_tuple_def empty_heap_def)
  from decorator_stored_as_supplied[of "[PStr ''staticmethod'']" "[]" empty_heap 0 ?h "[]"] n
  show ?thesis by simp
qed

subsection \<open>Equality of instances\<close>

lemma tuple_eq_instances:
  assumes dc: "distinct (field_names c)"
    and a: "instance_of h a c"
    and b: "instance_of h b c"
  shows "tuple_eq h a b =
           Inr (\<forall>f \<in> set (field_names c).
                  \<exists>v w. getfield h a f = Inr v \<and> getfield h b f = Inr w \<and> val_eq h v w)"
proof -
  let ?xs = "tp_items (tuples h ! a)" and ?ys = "tp_items (tuples h ! b)"
  let ?n = "length (cls_fields c)"
  have len: "length ?xs = ?n" "length ?ys = ?n" "length (field_names c) = ?n"
    using a b by (simp_all add: instance_of_def field_names_def)
  have ga: "getfield h a (field_names c ! i) = Inr (?xs ! i)" if "i < ?n" for i
    by (rule getfield_instance[OF a that dc])
  have gb: "getfield h b (field_names c ! i) = Inr (?ys ! i)" if "i < ?n" for i
    by (rule getfield_instance[OF b that dc])
  have "list_all2 (val_eq h) ?xs ?ys \<longleftrightarrow> (\<forall>i < ?n. val_eq h (?xs ! i) (?ys ! i))"
    using len by (simp add: list_all2_conv_all_nth)
  also have "\<dots> \<longleftrightarrow> (\<forall>f \<in> set (field_names c).
                  \<exists>v w. getfield h a f = Inr v \<and> getfield h b f = Inr w \<and> val_eq h v w)"
  proof
    assume l: "\<forall>i < ?n. val_eq h (?xs ! i) (?ys ! i)"
    show "\<forall>f \<in> set (field_names c).
            \<exists>v w. getfield h a f = Inr v \<and> getfield h b f = Inr w \<and> val_eq h v w"
    proof
      fix f assume "f \<in> set (field_names c)"
      then obtain i where i: "i < ?n" "f = field_names c ! i"
        using len(3) by (auto simp: in_set_conv_nth)
      with l ga[OF i(1)] gb[OF i(1)] show
        "\<exists>v w. getfield h a f = Inr v \<and> getfield h b f = Inr w \<and> val_eq h v w"
        by simp
    qed
  next
    assume r: "\<forall>f \<in> set (field_names c).
            \<exists>v w. getfield h a f = Inr v \<and> getfield h b f = Inr w \<and> val_eq h v w"
    show "\<forall>i < ?n. val_eq h (?xs ! i) (?ys ! i)"
    proof (intro allI impI)
      fix i assume i: "i < ?n"
      then have "field_names c ! i \<in> set (field_names c)" using len(3) by simp
      with r obtain v w where "getfield h a (field_names c ! i) = Inr v"
        "getfield h b (field_names c ! i) = Inr w" "val_eq h v w" by blast
      with ga[OF i] gb[OF i] show "val_eq h (?xs ! i) (?ys ! i)" by simp
    qed
  qed
  finally show ?thesis
    using a b by (simp add: tuple_eq_def tuple_at_def instance_of_def)
qed

text \<open>
  C5. Equality is by value: two instances of the same record type are equal if and only
  if every field of the one equals (\<^verbatim>\<open>==\<close>) the same field of the other; so two
  instances that differ in one field are unequal.
\<close>

theorem equality_is_by_value:
  assumes "c \<in> {AnnotationSpecification, WhitelistSpecification, DecoratorAnnotationSpecification}"
    and "instance_of h a c"
    and "instance_of h b c"
  shows "tuple_eq h a b =
           Inr (\<forall>f \<in> set (field_names c).
                  \<exists>v w. getfield h a f = Inr v \<and> getfield h b f = Inr w \<and> val_eq h v w)"
proof -
  have "distinct (field_names c)" using assms(1) distinct_field_names by auto
  from tuple_eq_instances[OF this assms(2,3)] show ?thesis .
qed

theorem equality_is_by_value_witness:
  "tuple_eq \<lparr>sets = [{''self''}, {''self''}, {''cls''}],
             tuples = [\<lparr>tp_class = Some WhitelistSpecification, tp_items = [PNone, PSet 0]\<rparr>,
                       \<lparr>tp_class = Some WhitelistSpecification, tp_items = [PNone, PSet 1]\<rparr>,
                       \<lparr>tp_class = Some WhitelistSpecification, tp_items = [PNone, PSet 2]\<rparr>]\<rparr>
      0 1 = Inr True \<and>
   tuple_eq \<lparr>sets = [{''self''}, {''self''}, {''cls''}],
             tuples = [\<lparr>tp_class = Some WhitelistSpecification, tp_items = [PNone, PSet 0]\<rparr>,
                       \<lparr>tp_class = Some WhitelistSpecification, tp_items = [PNone, PSet 1]\<rparr>,
                       \<lparr>tp_class = Some WhitelistSpecification, tp_items = [PNone, PSet 2]\<rparr>]\<rparr>
      0 2 = Inr False"
proof -
  let ?h = "\<lparr>sets = [{''self''}, {''self''}, {''cls''}],
             tuples = [\<lparr>tp_class = Some WhitelistSpecification, tp_items = [PNone, PSet 0]\<rparr>,
                       \<lparr>tp_class = Some WhitelistSpecification, tp_items = [PNone, PSet 1]\<rparr>,
                       \<lparr>tp_class = Some WhitelistSpecification, tp_items = [PNone, PSet 2]\<rparr>]\<rparr>"
  have i: "instance_of ?h 0 WhitelistSpecification" "instance_of ?h 1 WhitelistSpecification"
    "instance_of ?h 2 WhitelistSpecification"
    by (simp_all add: instance_of_def cls_fields_simps)
  from equality_is_by_value[OF _ i(1) i(2)] equality_is_by_value[OF _ i(1) i(3)]
  show ?thesis
    by (simp add: field_names_simps getfield_def tuple_at_def getitem_def)
qed

subsection \<open>The exemption rule\<close>

lemma listed_iff:
  "listed h w x \<longleftrightarrow> (\<exists>s S. w = PSet s \<and> set_at h s = Inr S \<and> x \<in> S)"
  by (cases w) (auto simp: listed_def set_at_def)

lemma exempt_by_instance:
  assumes dc: "distinct (field_names c)"
    and a: "instance_of h a c"
    and tf: "tf \<in> set (field_names c)"
    and nf: "nf \<in> set (field_names c)"
  shows "exempt_by tf nf h a ptype pname =
           Inr ((\<exists>s S. getfield h a tf = Inr (PSet s) \<and> set_at h s = Inr S \<and> ptype \<in> S) \<or>
                (\<exists>s S. getfield h a nf = Inr (PSet s) \<and> set_at h s = Inr S \<and> pname \<in> S))"
proof -
  have len: "length (field_names c) = length (cls_fields c)" by (simp add: field_names_def)
  from tf obtain i where i: "i < length (cls_fields c)" "tf = field_names c ! i"
    using len by (auto simp: in_set_conv_nth)
  from nf obtain j where j: "j < length (cls_fields c)" "nf = field_names c ! j"
    using len by (auto simp: in_set_conv_nth)
  from getfield_instance[OF a i(1) dc] i(2) obtain ts where ts: "getfield h a tf = Inr ts"
    by simp
  from getfield_instance[OF a j(1) dc] j(2) obtain ns where ns: "getfield h a nf = Inr ns"
    by simp
  show ?thesis by (simp add: exempt_by_def ts ns listed_iff)
qed

text \<open>
  C6. Under a \<^verbatim>\<open>WhitelistSpecification\<close>, a parameter is exempt if and only if
  \<^verbatim>\<open>parameter_type\<close> is set and holds the parameter's type, or
  \<^verbatim>\<open>parameter_name\<close> is set and holds the parameter's name; when both fields are
  unset, no parameter is exempt.
\<close>

theorem whitelist_exemption_rule:
  assumes "instance_of h a WhitelistSpecification"
  shows "exempt h a ptype pname =
           Inr ((\<exists>s S. getfield h a ''parameter_type'' = Inr (PSet s) \<and>
                        set_at h s = Inr S \<and> ptype \<in> S) \<or>
                (\<exists>s S. getfield h a ''parameter_name'' = Inr (PSet s) \<and>
                        set_at h s = Inr S \<and> pname \<in> S)) \<and>
         (getfield h a ''parameter_type'' = Inr PNone \<and>
          getfield h a ''parameter_name'' = Inr PNone \<longrightarrow>
            exempt h a ptype pname = Inr False)"
proof -
  have e: "exempt h a ptype pname =
           Inr ((\<exists>s S. getfield h a ''parameter_type'' = Inr (PSet s) \<and>
                        set_at h s = Inr S \<and> ptype \<in> S) \<or>
                (\<exists>s S. getfield h a ''parameter_name'' = Inr (PSet s) \<and>
                        set_at h s = Inr S \<and> pname \<in> S))"
    unfolding exempt_def
    by (rule exempt_by_instance[OF distinct_field_names(2) assms])
      (simp_all add: field_names_simps)
  then show ?thesis by auto
qed

theorem whitelist_exemption_rule_witness:
  "exempt \<lparr>sets = [{''HttpRequest''}],
           tuples = [\<lparr>tp_class = Some WhitelistSpecification, tp_items = [PSet 0, PNone]\<rparr>,
                     \<lparr>tp_class = Some WhitelistSpecification, tp_items = [PNone, PNone]\<rparr>]\<rparr>
      0 ''HttpRequest'' ''request'' = Inr True \<and>
   exempt \<lparr>sets = [{''HttpRequest''}],
           tuples = [\<lparr>tp_class = Some WhitelistSpecification, tp_items = [PSet 0, PNone]\<rparr>,
                     \<lparr>tp_class = Some WhitelistSpecification, tp_items = [PNone, PNone]\<rparr>]\<rparr>
      0 ''str'' ''request'' = Inr False \<and>
   exempt \<lparr>sets = [{''HttpRequest''}],
           tuples = [\<lparr>tp_class = Some WhitelistSpecification, tp_items = [PSet 0, PNone]\<rparr>,
                     \<lparr>tp_class = Some WhitelistSpecification, tp_items = [PNone, PNone]\<rparr>]\<rparr>
      1 ''HttpRequest'' ''request'' = Inr False"
proof -
  let ?h = "\<lparr>sets = [{''HttpRequest''}],
           tuples = [\<lparr>tp_class = Some WhitelistSpecification, tp_items = [PSet 0, PNone]\<rparr>,
                     \<lparr>tp_class = Some WhitelistSpecification, tp_items = [PNone, PNone]\<rparr>]\<rparr>"
  have i: "instance_of ?h 0 WhitelistSpecification" "instance_of ?h 1 WhitelistSpecification"
    by (simp_all add: instance_of_def cls_fields_simps)
  from whitelist_exemption_rule[OF i(1), of "''HttpRequest''" "''request''"]
    whitelist_exemption_rule[OF i(1), of "''str''" "''request''"]
    whitelist_exemption_rule[OF i(2), of "''HttpRequest''" "''request''"]
  show ?thesis
    by (simp add: field_names_simps getfield_def tuple_at_def getitem_def set_at_def)
qed

subsection \<open>What operations leave unchanged\<close>






lemma getitem_kept:
  assumes "a < length (tuples h)" "a < length (tuples h')" "tuples h' ! a = tuples h ! a"
  shows "getitem h' a i = getitem h a i"
  using assms by (simp add: getitem_def tuple_at_def)

lemma getfield_kept:
  assumes "a < length (tuples h)" "a < length (tuples h')" "tuples h' ! a = tuples h ! a"
  shows "getfield h' a f = getfield h a f"
  using assms getitem_kept[OF assms]
  by (simp add: getfield_def tuple_at_def split: option.splits)





subsection \<open>Shared sets\<close>

lemma update_set_ok:
  assumes "set_at h s = Inr S"
  shows "update_set s g h = (Inr Done, h\<lparr>sets := (sets h)[s := g S]\<rparr>)"
  using assms by (auto simp: update_set_def set_at_def split: if_splits)

text \<open>
  C9. The immutability is shallow. A whitelist field holds a reference to a set object;
  adding a string to that set succeeds, reassigns no field (every tuple object is as
  before, and the field still holds the same reference), and yet the set the field
  refers to has other contents than at construction.
\<close>

theorem whitelist_sets_are_shared:
  assumes "(c = WhitelistSpecification \<and> f \<in> {''parameter_type'', ''parameter_name''}) \<or>
           (c = DecoratorAnnotationSpecification \<and>
            f \<in> {''parameter_type_whitelist'', ''parameter_name_whitelist''})"
    and "instance_of h a c"
    and "getfield h a f = Inr (PSet s)"
    and "set_at h s = Inr S"
    and "x \<notin> S"
  shows "\<exists>h'. exec (SetAdd s x) h = (Inr Done, h') \<and>
               tuples h' = tuples h \<and>
               getfield h' a f = Inr (PSet s) \<and>
               set_at h' s = Inr (insert x S) \<and>
               set_at h' s \<noteq> set_at h s"
proof -
  let ?h' = "h\<lparr>sets := (sets h)[s := insert x S]\<rparr>"
  from assms(2) have a: "a < length (tuples h)" by (simp add: instance_of_def)
  have e: "exec (SetAdd s x) h = (Inr Done, ?h')"
    using update_set_ok[OF assms(4)] by simp
  have t: "tuples ?h' = tuples h" by simp
  have g: "getfield ?h' a f = Inr (PSet s)"
    using getfield_kept[of a h ?h' f] a assms(3) by simp
  from assms(4) have s: "set_at ?h' s = Inr (insert x S)"
    by (auto simp: set_at_def split: if_splits)
  from assms(5) have "insert x S \<noteq> S" by blast
  with s assms(4) have "set_at ?h' s \<noteq> set_at h s" by simp
  with e t g s show ?thesis by blast
qed

theorem whitelist_sets_are_shared_witness:
  "\<exists>h'. exec (SetAdd 0 ''cls'')
            \<lparr>sets = [{''self''}],
             tuples = [\<lparr>tp_class = Some WhitelistSpecification,
                        tp_items = [PNone, PSet 0]\<rparr>]\<rparr> = (Inr Done, h') \<and>
         tuples h' = [\<lparr>tp_class = Some WhitelistSpecification, tp_items = [PNone, PSet 0]\<rparr>] \<and>
         getfield h' 0 ''parameter_name'' = Inr (PSet 0) \<and>
         set_at h' 0 = Inr {''cls'', ''self''}"
proof -
  let ?h = "\<lparr>sets = [{''self''}],
             tuples = [\<lparr>tp_class = Some WhitelistSpecification,
                        tp_items = [PNone, PSet 0]\<rparr>]\<rparr>"
  have i: "instance_of ?h 0 WhitelistSpecification"
    by (simp add: instance_of_def cls_fields_simps)
  have g: "getfield ?h 0 ''parameter_name'' = Inr (PSet 0)"
    by (simp add: getfield_def tuple_at_def getitem_def field_names_simps)
  have s: "set_at ?h 0 = Inr {''self''}" by (simp add: set_at_def)
  have x: "''cls'' \<notin> {''self''}" by simp
  from whitelist_sets_are_shared[OF _ i g s x] obtain h' where
    "exec (SetAdd 0 ''cls'') ?h = (Inr Done, h')" "tuples h' = tuples ?h"
    "getfield h' 0 ''parameter_name'' = Inr (PSet 0)" "set_at h' 0 = Inr (insert ''cls'' {''self''})"
    by auto
  then show ?thesis by auto
qed

subsection \<open>The \<^verbatim>\<open>cached_property\<close> scenario\<close>

text \<open>
  C8. The program builds the set \<^verbatim>\<open>{"self"}\<close> and then
  \<^verbatim>\<open>DecoratorAnnotationSpecification(decorator="cached_property", return_annotation="Any", parameter_name_whitelist={"self"})\<close>.
  A lookup for a callable decorated with \<^verbatim>\<open>cached_property\<close> selects this
  specification (alone in the table: exactly it; in any table that holds it: among the
  matches). Whatever its type, a parameter named \<^verbatim>\<open>self\<close> is exempt; one named
  \<^verbatim>\<open>value\<close> is not exempt and gets no annotation, \<^verbatim>\<open>arg_annotation\<close> being unset;
  the return value gets the annotation \<^verbatim>\<open>Any\<close>.
\<close>

theorem cached_property_scenario:
  assumes "exec (MkSet [''self'']) h = (Inr (SetRef s), h1)"
    and "exec (New DecoratorAnnotationSpecification []
                 [(''decorator'', PStr ''cached_property''),
                  (''return_annotation'', PStr ''Any''),
                  (''parameter_name_whitelist'', PSet s)]) h1 = (Inr (TupleRef a), h2)"
  shows "lookup h2 [a] [''cached_property''] = [a] \<and>
         (a \<in> set table \<longrightarrow> a \<in> set (lookup h2 table [''cached_property''])) \<and>
         decorator_exempt h2 a ptype ''self'' = Inr True \<and>
         decorator_exempt h2 a ptype ''value'' = Inr False \<and>
         getfield h2 a ''arg_annotation'' = Inr PNone \<and>
         parameter_annotation h2 a ptype ''value'' = Inr None \<and>
         annotation_of h2 a ''return_annotation'' = Inr (Some ''Any'')"
proof -
  let ?kw = "[(''decorator'', PStr ''cached_property''),
              (''return_annotation'', PStr ''Any''),
              (''parameter_name_whitelist'', PSet s)]"
  from assms(1) have s: "s = length (sets h)" and h1: "h1 = h\<lparr>sets := sets h @ [{''self''}]\<rparr>"
    by (auto simp: alloc_set_def)
  from assms(2) have n: "new DecoratorAnnotationSpecification [] ?kw h1 = Inr (a, h2)"
    by (auto split: sum.splits)
  from new_ok[OF n] have "sets h2 = sets h1" by auto
  with s h1 have st: "s < length (sets h2)" "sets h2 ! s = {''self''}" by simp_all
  note g = getfield_new_keywords[OF n distinct_field_names(3)]
  have d: "getfield h2 a ''decorator'' = Inr (PStr ''cached_property'')"
    using g[of "''decorator''" None] by (simp add: cls_fields_simps)
  have aa: "getfield h2 a ''arg_annotation'' = Inr PNone"
    using g[of "''arg_annotation''" "Some PNone"] by (simp add: cls_fields_simps)
  have ra: "getfield h2 a ''return_annotation'' = Inr (PStr ''Any'')"
    using g[of "''return_annotation''" "Some PNone"] by (simp add: cls_fields_simps)
  have tw: "getfield h2 a ''parameter_type_whitelist'' = Inr PNone"
    using g[of "''parameter_type_whitelist''" "Some PNone"] by (simp add: cls_fields_simps)
  have nw: "getfield h2 a ''parameter_name_whitelist'' = Inr (PSet s)"
    using g[of "''parameter_name_whitelist''" "Some PNone"] by (simp add: cls_fields_simps)
  have m: "decorator_matches h2 [''cached_property''] a"
    by (simp add: decorator_matches_def d)
  have e1: "decorator_exempt h2 a ptype ''self'' = Inr True"
    by (simp add: decorator_exempt_def exempt_by_def tw nw listed_def st)
  have e2: "decorator_exempt h2 a ptype ''value'' = Inr False"
    by (simp add: decorator_exempt_def exempt_by_def tw nw listed_def st)
  have p: "parameter_annotation h2 a ptype ''value'' = Inr None"
    by (simp add: parameter_annotation_def e2 annotation_of_def aa)
  have r: "annotation_of h2 a ''return_annotation'' = Inr (Some ''Any'')"
    by (simp add: annotation_of_def ra)
  from m have "lookup h2 [a] [''cached_property''] = [a]"
    and "a \<in> set table \<longrightarrow> a \<in> set (lookup h2 table [''cached_property''])"
    by (simp_all add: lookup_def)
  with e1 e2 aa p r show ?thesis by blast
qed

theorem cached_property_scenario_witness:
  "lookup \<lparr>sets = [{''self''}],
           tuples = [\<lparr>tp_class = Some DecoratorAnnotationSpecification,
                      tp_items = [PStr ''cached_property'', PNone, PNone, PNone, PStr ''Any'',
                                  PNone, PSet 0]\<rparr>]\<rparr> [0] [''cached_property''] = [0] \<and>
   decorator_exempt \<lparr>sets = [{''self''}],
           tuples = [\<lparr>tp_class = Some DecoratorAnnotationSpecification,
                      tp_items = [PStr ''cached_property'', PNone, PNone, PNone, PStr ''Any'',
                                  PNone, PSet 0]\<rparr>]\<rparr> 0 ''int'' ''self'' = Inr True \<and>
   parameter_annotation \<lparr>sets = [{''self''}],
           tuples = [\<lparr>tp_class = Some DecoratorAnnotationSpecification,
                      tp_items = [PStr ''cached_property'', PNone, PNone, PNone, PStr ''Any'',
                                  PNone, PSet 0]\<rparr>]\<rparr> 0 ''int'' ''value'' = Inr None \<and>
   annotation_of \<lparr>sets = [{''self''}],
           tuples = [\<lparr>tp_class = Some DecoratorAnnotationSpecification,
                      tp_items = [PStr ''cached_property'', PNone, PNone, PNone, PStr ''Any'',
                                  PNone, PSet 0]\<rparr>]\<rparr> 0 ''return_annotation'' = Inr (Some ''Any'')"
proof -
  let ?h1 = "\<lparr>sets = [{''self''}], tuples = []\<rparr>"
  let ?h2 = "\<lparr>sets = [{''self''}],
           tuples = [\<lparr>tp_class = Some DecoratorAnnotationSpecification,
                      tp_items = [PStr ''cached_property'', PNone, PNone, PNone, PStr ''Any'',
                                  PNone, PSet 0]\<rparr>]\<rparr>"
  have a: "exec (MkSet [''self'']) empty_heap = (Inr (SetRef 0), ?h1)"
    by (simp add: alloc_set_def empty_heap_def)
  have b: "exec (New DecoratorAnnotationSpecification []
                 [(''decorator'', PStr ''cached_property''),
                  (''return_annotation'', PStr ''Any''),
                  (''parameter_name_whitelist'', PSet 0)]) ?h1 = (Inr (TupleRef 0), ?h2)"
    by (simp add: new_def bind_args_def Let_def cls_fields_simps alloc_tuple_def)
  from cached_property_scenario[OF a b, of "[]" "''int''"] show ?thesis by blast
qed

subsection \<open>The records as tuples\<close>

lemma val_eq_refl: "val_eq h v v"
  by (cases v) simp_all

lemma tuple_eq_same_items:
  assumes "a < length (tuples h)" "b < length (tuples h)"
    and "tp_items (tuples h ! b) = tp_items (tuples h ! a)"
  shows "tuple_eq h a b = Inr True"
  using assms by (simp add: tuple_eq_def tuple_at_def list_all2_same val_eq_refl)

lemma defaults_after_positional:
  assumes c: "c \<in> {AnnotationSpecification, WhitelistSpecification, DecoratorAnnotationSpecification}"
    and req: "c = DecoratorAnnotationSpecification \<longrightarrow> args \<noteq> []"
    and fd: "(f, d) \<in> set (drop (length args) (cls_fields c))"
  shows "d = Some PNone"
proof (cases "c = DecoratorAnnotationSpecification")
  case True
  with req have "1 \<le> length args" by (cases args) simp_all
  from set_drop_subset_set_drop[OF this, of "cls_fields c"] fd
  have "(f, d) \<in> set (drop 1 (cls_fields c))" by blast
  with True show ?thesis by (auto simp: cls_fields_simps)
next
  case False
  from fd have "(f, d) \<in> set (cls_fields c)" by (rule in_set_dropD)
  with False c declared_defaults(1,2) show ?thesis by blast
qed

lemma new_positional:
  assumes c: "c \<in> {AnnotationSpecification, WhitelistSpecification, DecoratorAnnotationSpecification}"
    and len: "length args \<le> length (field_names c)"
    and req: "c = DecoratorAnnotationSpecification \<longrightarrow> args \<noteq> []"
  shows "\<exists>b h'. new c args [] h = Inr (b, h') \<and>
           (\<forall>i < length (field_names c).
              getfield h' b (field_names c ! i) = Inr (if i < length args then args ! i else PNone))"
proof -
  have dc: "distinct (field_names c)" using c distinct_field_names by auto
  have l: "length (field_names c) = length (cls_fields c)" by (simp add: field_names_def)
  have "list_all (\<lambda>(f, d). f \<in> set (map fst ([] :: (string \<times> pyval) list)) \<or> d \<noteq> None)
          (drop (length args) (cls_fields c))"
    unfolding list_all_iff using defaults_after_positional[OF c req] by fastforce
  with len l dc have "\<exists>b h'. new c args [] h = Inr (b, h')"
    by (intro new_succeeds) simp_all
  then obtain b h' where n: "new c args [] h = Inr (b, h')" by blast
  have "getfield h' b (field_names c ! i) = Inr (if i < length args then args ! i else PNone)"
    if i: "i < length (field_names c)" for i
  proof (cases "i < length args")
    case True
    with getfield_new[OF n dc, of i] i l show ?thesis by simp
  next
    case False
    with i l have "cls_fields c ! i \<in> set (drop (length args) (cls_fields c))"
      by (auto simp: in_set_conv_nth intro!: exI[of _ "i - length args"])
    with defaults_after_positional[OF c req, of "fst (cls_fields c ! i)" "snd (cls_fields c ! i)"]
    have "snd (cls_fields c ! i) = Some PNone" by simp
    with getfield_new[OF n dc, of i] i l False show ?thesis by simp
  qed
  with n show ?thesis by blast
qed

text \<open>
  C10. Each record type is a tuple. The item at index \<open>i\<close> of an instance is the field
  declared at position \<open>i\<close> (for a \<^verbatim>\<open>DecoratorAnnotationSpecification\<close>, index 0 is
  \<^verbatim>\<open>decorator\<close>); positional arguments fill the fields in declaration order, the
  fields after them taking their default; and an instance equals every tuple object
  with the same items, a plain tuple built from them in particular: equality does not
  look at the class.
\<close>

theorem records_are_tuples:
  assumes c: "c \<in> {AnnotationSpecification, WhitelistSpecification, DecoratorAnnotationSpecification}"
    and inst: "instance_of h a c"
  shows "(\<forall>i < length (field_names c). getitem h a (int i) = getfield h a (field_names c ! i)) \<and>
         (c = DecoratorAnnotationSpecification \<longrightarrow> getitem h a 0 = getfield h a ''decorator'') \<and>
         (length args \<le> length (field_names c) \<and>
          (c = DecoratorAnnotationSpecification \<longrightarrow> args \<noteq> []) \<longrightarrow>
            (\<exists>b h'. new c args [] h = Inr (b, h') \<and>
               (\<forall>i < length (field_names c).
                  getfield h' b (field_names c ! i) =
                    Inr (if i < length args then args ! i else PNone)))) \<and>
         (b < length (tuples h) \<and> tp_items (tuples h ! b) = tp_items (tuples h ! a) \<longrightarrow>
            tuple_eq h a b = Inr True) \<and>
         (\<exists>p h'. exec (MkTuple (tp_items (tuples h ! a))) h = (Inr (TupleRef p), h') \<and>
            tp_class (tuples h' ! p) = None \<and> tuple_eq h' a p = Inr True)"
proof -
  have dc: "distinct (field_names c)" using c distinct_field_names by auto
  have l: "length (field_names c) = length (cls_fields c)" by (simp add: field_names_def)
  from inst have a: "a < length (tuples h)"
    and n: "length (tp_items (tuples h ! a)) = length (cls_fields c)"
    by (simp_all add: instance_of_def)
  have idx: "getitem h a (int i) = getfield h a (field_names c ! i)"
    if "i < length (field_names c)" for i
    using that l getfield_instance[OF inst _ dc, of i] getitem_nat[OF a, of i] n by simp
  have dec: "getitem h a 0 = getfield h a ''decorator''" if "c = DecoratorAnnotationSpecification"
    using idx[of 0] that by (simp add: field_names_simps)
  have pos: "\<exists>b h'. new c args [] h = Inr (b, h') \<and>
               (\<forall>i < length (field_names c).
                  getfield h' b (field_names c ! i) =
                    Inr (if i < length args then args ! i else PNone))"
    if "length args \<le> length (field_names c) \<and>
          (c = DecoratorAnnotationSpecification \<longrightarrow> args \<noteq> [])"
    using new_positional[OF c, of args h] that by blast
  have eq: "tuple_eq h a b = Inr True"
    if "b < length (tuples h) \<and> tp_items (tuples h ! b) = tp_items (tuples h ! a)"
    using tuple_eq_same_items[OF a, of b] that by blast
  let ?p = "length (tuples h)"
  let ?h' = "h\<lparr>tuples := tuples h @ [\<lparr>tp_class = None, tp_items = tp_items (tuples h ! a)\<rparr>]\<rparr>"
  have mk: "exec (MkTuple (tp_items (tuples h ! a))) h = (Inr (TupleRef ?p), ?h')"
    by (simp add: alloc_tuple_def)
  have "tuple_eq ?h' a ?p = Inr True"
    using a by (intro tuple_eq_same_items) (simp_all add: nth_append)
  with mk have plain: "\<exists>p h'. exec (MkTuple (tp_items (tuples h ! a))) h = (Inr (TupleRef p), h') \<and>
            tp_class (tuples h' ! p) = None \<and> tuple_eq h' a p = Inr True"
    by (intro exI[of _ ?p] exI[of _ ?h']) simp
  from idx dec pos eq plain show ?thesis by blast
qed

theorem records_are_tuples_witness:
  "getitem \<lparr>sets = [], tuples = [\<lparr>tp_class = Some DecoratorAnnotationSpecification,
       tp_items = [PStr ''staticmethod'', PNone, PNone, PNone, PNone, PNone, PNone]\<rparr>,
       \<lparr>tp_class = None,
       tp_items = [PStr ''staticmethod'', PNone, PNone, PNone, PNone, PNone, PNone]\<rparr>]\<rparr> 0 0
     = Inr (PStr ''staticmethod'') \<and>
   tuple_eq \<lparr>sets = [], tuples = [\<lparr>tp_class = Some DecoratorAnnotationSpecification,
       tp_items = [PStr ''staticmethod'', PNone, PNone, PNone, PNone, PNone, PNone]\<rparr>,
       \<lparr>tp_class = None,
       tp_items = [PStr ''staticmethod'', PNone, PNone, PNone, PNone, PNone, PNone]\<rparr>]\<rparr> 0 1
     = Inr True \<and>
   (\<exists>b h'. new DecoratorAnnotationSpecification [PStr ''property'', PNone, PNone, PNone, PStr ''Any''] []
       \<lparr>sets = [], tuples = [\<lparr>tp_class = Some DecoratorAnnotationSpecification,
       tp_items = [PStr ''staticmethod'', PNone, PNone, PNone, PNone, PNone, PNone]\<rparr>,
       \<lparr>tp_class = None,
       tp_items = [PStr ''staticmethod'', PNone, PNone, PNone, PNone, PNone, PNone]\<rparr>]\<rparr>
       = Inr (b, h') \<and>
      getfield h' b ''decorator'' = Inr (PStr ''property'') \<and>
      getfield h' b ''return_annotation'' = Inr (PStr ''Any'') \<and>
      getfield h' b ''parameter_name_whitelist'' = Inr PNone)"
proof -
  let ?h = "\<lparr>sets = [], tuples = [\<lparr>tp_class = Some DecoratorAnnotationSpecification,
       tp_items = [PStr ''staticmethod'', PNone, PNone, PNone, PNone, PNone, PNone]\<rparr>,
       \<lparr>tp_class = None,
       tp_items = [PStr ''staticmethod'', PNone, PNone, PNone, PNone, PNone, PNone]\<rparr>]\<rparr>"
  let ?args = "[PStr ''property'', PNone, PNone, PNone, PStr ''Any'']"
  have c: "DecoratorAnnotationSpecification \<in>
      {AnnotationSpecification, WhitelistSpecification, DecoratorAnnotationSpecification}"
    by simp
  have i: "instance_of ?h 0 DecoratorAnnotationSpecification"
    by (simp add: instance_of_def cls_fields_simps)
  have g: "getfield ?h 0 ''decorator'' = Inr (PStr ''staticmethod'')"
    by (simp add: getfield_def tuple_at_def getitem_def field_names_simps)
  note t = records_are_tuples[OF c i, of ?args 1]
  from t g have r1: "getitem ?h 0 0 = Inr (PStr ''staticmethod'')" by simp
  from t have r2: "tuple_eq ?h 0 1 = Inr True" by simp
  from t obtain b h' where n: "new DecoratorAnnotationSpecification ?args [] ?h = Inr (b, h')"
    and f: "\<forall>i < length (field_names DecoratorAnnotationSpecification).
              getfield h' b (field_names DecoratorAnnotationSpecification ! i) =
                Inr (if i < length ?args then ?args ! i else PNone)"
    by (auto simp: field_names_simps)
  from f[rule_format, of 0] f[rule_format, of 4] f[rule_format, of 6]
  have "getfield h' b ''decorator'' = Inr (PStr ''property'') \<and>
      getfield h' b ''return_annotation'' = Inr (PStr ''Any'') \<and>
      getfield h' b ''parameter_name_whitelist'' = Inr PNone"
    by (simp add: field_names_simps)
  with n r1 r2 show ?thesis by blast
qed

end
